theory Spec2Isabelle
  imports Complex_Main
begin

section \<open>The type graph\<close>

text \<open>
  The resolver reads the compiler's type graph. A \<open>Model\<close> has a name, an
  insertion-ordered \<open>Map\<close> from property name to \<open>ModelProperty\<close> and an optional
  \<open>baseModel\<close>. The other kinds of \<open>Type\<close> the resolver looks at are \<open>Union\<close> (a
  \<open>Map\<close> of variants, each with a \<open>type\<close>), \<open>Tuple\<close> (an array \<open>values\<close>), and the
  literal kinds \<open>String\<close> and \<open>Number\<close>, each with a \<open>value\<close>. Every other kind is
  \<open>TOther\<close>. A JavaScript \<open>Map\<close> is an association list in insertion order; a
  numeric literal is a rational number (every finite double is one, and the code
  only compares it with 200 and 300).
\<close>

datatype model =
    Model (name: string) (properties: "(string \<times> modelProperty) list") (baseModel: "model option")
and modelProperty =
    ModelProperty (pname: string) (ptype: type)
and unionVariant =
    UnionVariant (vname: string) (vtype: type)
and type =
    TModel model
  | TUnion "unionVariant list"
  | TTuple "type list"
  | TString string
  | TNumber rat
  | TOther string

datatype operation = Operation (oname: string)

record httpOperationResponse =
  rtype :: type

record httpOperation =
  responses :: "httpOperationResponse list"

datatype diagnosticTarget = TargetOperation operation | TargetOther string

record diagnostic =
  code :: string
  target :: diagnosticTarget

text \<open>
  The \<open>Program\<close> is the host compilation context. The resolver uses four things of
  it, none of them defined in this repository: the decorator state read by
  \<open>isErrorModel\<close> and \<open>isStatusCode\<close>, the HTTP layer's \<open>getHttpOperation\<close> (which
  returns the resolved operation together with its diagnostics), and the list of
  diagnostics reported so far. They are the fields of the record, so that
  \<open>isErrorModel program m\<close> reads as the source does.
\<close>

record program =
  isErrorModel :: "model \<Rightarrow> bool"
  isStatusCode :: "modelProperty \<Rightarrow> bool"
  getHttpOperation :: "operation \<Rightarrow> httpOperation \<times> diagnostic list"
  diagnostics :: "diagnostic list"

section \<open>Maps in insertion order\<close>

text \<open>
  \<open>Map.prototype.set\<close>: an existing key keeps its position and takes the new value;
  a new key is appended.
\<close>

fun map_set :: "('k \<times> 'v) list \<Rightarrow> 'k \<Rightarrow> 'v \<Rightarrow> ('k \<times> 'v) list" where
  "map_set [] k v = [(k, v)]"
| "map_set ((k', v') # kvs) k v =
     (if k' = k then (k, v) # kvs else (k', v') # map_set kvs k v)"

definition map_values :: "('k \<times> 'v) list \<Rightarrow> 'v list" where
  "map_values m = map snd m"

text \<open>The loop \<open>for (const [name, value] of entries) out.set(name, value)\<close>.\<close>

definition set_all :: "('k \<times> 'v) list \<Rightarrow> ('k \<times> 'v) list \<Rightarrow> ('k \<times> 'v) list" where
  "set_all entries out = fold (\<lambda>(name, value) out. map_set out name value) entries out"

section \<open>The resolver\<close>

fun getAllProperties ::
  "model \<Rightarrow> (string \<times> modelProperty) list \<Rightarrow> (string \<times> modelProperty) list" where
  "getAllProperties (Model n ps b) collection =
     (let outCollection = set_all ps collection
      in case b of
           Some bm \<Rightarrow> getAllProperties bm outCollection
         | None \<Rightarrow> outCollection)"

definition filterModelProperties ::
  "model \<Rightarrow> (modelProperty \<Rightarrow> bool) \<Rightarrow> modelProperty list" where
  "filterModelProperties m predicate =
     filter predicate (map_values (getAllProperties m []))"

text \<open>
  \<open>filterResponseModels\<close>: the array \<open>models\<close> grows by \<open>push\<close> while the responses,
  and inside a union or tuple its members, are visited in order. A \<open>switch\<close> case
  that matches no kind leaves \<open>models\<close> as it is.
\<close>

definition pushIfModel :: "(model \<Rightarrow> bool) \<Rightarrow> type \<Rightarrow> model list \<Rightarrow> model list" where
  "pushIfModel predicate t models =
     (case t of
        TModel m \<Rightarrow> if predicate m then models @ [m] else models
      | _ \<Rightarrow> models)"

definition visitResponse ::
  "(model \<Rightarrow> bool) \<Rightarrow> httpOperationResponse \<Rightarrow> model list \<Rightarrow> model list" where
  "visitResponse predicate response models =
     (case rtype response of
        TModel m \<Rightarrow> if predicate m then models @ [m] else models
      | TUnion variants \<Rightarrow>
          fold (\<lambda>variant ms. pushIfModel predicate (vtype variant) ms) variants models
      | TTuple vals \<Rightarrow>
          fold (\<lambda>t ms. pushIfModel predicate t ms) vals models
      | _ \<Rightarrow> models)"

definition filterResponseModels ::
  "httpOperation \<Rightarrow> (model \<Rightarrow> bool) \<Rightarrow> model list option" where
  "filterResponseModels operation predicate =
     (let models = fold (visitResponse predicate) (responses operation) []
      in if length models > 0 then Some models else None)"

text \<open>
  \<open>getHttpMetadata\<close> hands the HTTP layer's diagnostics to the program when there
  are any, and returns the resolved operation; the program comes back updated.
\<close>

definition reportDiagnostics :: "program \<Rightarrow> diagnostic list \<Rightarrow> program" where
  "reportDiagnostics prog ds = prog\<lparr>diagnostics := diagnostics prog @ ds\<rparr>"

definition getHttpMetadata :: "program \<Rightarrow> operation \<Rightarrow> httpOperation \<times> program" where
  "getHttpMetadata prog operation =
     (let (httpOp, ds) = getHttpOperation prog operation
      in if length ds > 0 then (httpOp, reportDiagnostics prog ds) else (httpOp, prog))"

text \<open>
  Modelled from the spec: \<open>reportDiagnostic\<close> is imported from \<open>./lib.js\<close>, which is
  not among the sources. The spec describes the sink as
  \<open>report(code, target) -> void\<close>, append-only: one diagnostic with that code and
  target is appended to the program's diagnostics.
\<close>

definition reportDiagnostic :: "program \<Rightarrow> diagnostic \<Rightarrow> program" where
  "reportDiagnostic prog d = prog\<lparr>diagnostics := diagnostics prog @ [d]\<rparr>"

definition getStatusCodeProperty :: "program \<Rightarrow> model \<Rightarrow> modelProperty option" where
  "getStatusCodeProperty prog m =
     (let props = filterModelProperties m (\<lambda>prop. isStatusCode prog prop)
      in if length props > 0 then Some (hd props) else None)"

text \<open>\<open>String.prototype.startsWith\<close> with the one-character string \<open>"2"\<close>.\<close>

definition startsWith2 :: "string \<Rightarrow> bool" where
  "startsWith2 s = (case s of [] \<Rightarrow> False | c # _ \<Rightarrow> c = CHR ''2'')"

definition statusCodeAccepted :: "program \<Rightarrow> model \<Rightarrow> bool" where
  "statusCodeAccepted prog m =
     (case getStatusCodeProperty prog m of
        None \<Rightarrow> True
      | Some prop \<Rightarrow>
          (case ptype prop of
             TString v \<Rightarrow> startsWith2 v
           | TNumber v \<Rightarrow> v \<ge> 200 \<and> v < 300
           | _ \<Rightarrow> False))"

definition getSuccessResponse :: "program \<Rightarrow> httpOperation \<Rightarrow> model option" where
  "getSuccessResponse prog operation =
     (let candidates =
            map_option (filter (statusCodeAccepted prog))
              (filterResponseModels operation (\<lambda>response. \<not> isErrorModel prog response))
      in case candidates of
           None \<Rightarrow> None
         | Some [] \<Rightarrow> None
         | Some (c # _) \<Rightarrow> Some c)"

definition getOperationResponse :: "program \<Rightarrow> operation \<Rightarrow> model option \<times> program" where
  "getOperationResponse prog operation =
     (let (httpOp, prog1) = getHttpMetadata prog operation;
          response = getSuccessResponse prog1 httpOp
      in if response = None
         then (response,
               reportDiagnostic prog1
                 \<lparr>code = ''expected-success-response'', target = TargetOperation operation\<rparr>)
         else (response, prog1))"

definition getResultModelWithProperty ::
  "program \<Rightarrow> operation \<Rightarrow> (modelProperty \<Rightarrow> bool) \<Rightarrow> (model \<times> modelProperty) option \<times> program" where
  "getResultModelWithProperty prog operation predicate =
     (let (httpOperation, prog1) = getHttpMetadata prog operation;
          models = filterResponseModels httpOperation
                     (\<lambda>m. length (filterModelProperties m predicate) > 0)
      in case models of
           None \<Rightarrow> (None, prog1)
         | Some [] \<Rightarrow> (None, prog1)
         | Some (m0 # _) \<Rightarrow>
             (case filter predicate (map_values (properties m0)) of
                [] \<Rightarrow> (None, prog1)
              | p0 # _ \<Rightarrow> (Some (m0, p0), prog1)))"

section \<open>Notions used to state the properties\<close>

text \<open>
  The inheritance chain of a model, leaf first, and the property entries met on the
  walk from the leaf to the base, in the order the walk meets them.
\<close>

fun modelChain :: "model \<Rightarrow> model list" where
  "modelChain (Model n ps b) =
     Model n ps b # (case b of Some bm \<Rightarrow> modelChain bm | None \<Rightarrow> [])"

definition chainEntries :: "model \<Rightarrow> (string \<times> modelProperty) list" where
  "chainEntries m = concat (map properties (modelChain m))"

text \<open>A list of keys with every repetition after the first occurrence removed.\<close>

definition firstOccurrences :: "'a list \<Rightarrow> 'a list" where
  "firstOccurrences ks = rev (remdups (rev ks))"

text \<open>
  The models a response body holds, in declaration order: the body itself when it is
  a model, the variants of a union that are models, the elements of a tuple that are
  models, nothing for any other kind.
\<close>

definition modelOf :: "type \<Rightarrow> model list" where
  "modelOf t = (case t of TModel m \<Rightarrow> [m] | _ \<Rightarrow> [])"

definition bodyModels :: "type \<Rightarrow> model list" where
  "bodyModels t =
     (case t of
        TModel m \<Rightarrow> [m]
      | TUnion variants \<Rightarrow> concat (map (\<lambda>variant. modelOf (vtype variant)) variants)
      | TTuple vals \<Rightarrow> concat (map modelOf vals)
      | _ \<Rightarrow> [])"

definition responseModels :: "httpOperation \<Rightarrow> model list" where
  "responseModels operation =
     concat (map (\<lambda>response. bodyModels (rtype response)) (responses operation))"

text \<open>The sequence a result of \<open>filterResponseModels\<close> stands for: \<open>undefined\<close> holds no model.\<close>

definition candidates :: "model list option \<Rightarrow> model list" where
  "candidates r = (case r of None \<Rightarrow> [] | Some ms \<Rightarrow> ms)"






definition expectedSuccessResponse :: "operation \<Rightarrow> diagnostic" where
  "expectedSuccessResponse operation =
     \<lparr>code = ''expected-success-response'', target = TargetOperation operation\<rparr>"

section \<open>Flattening on an object graph with references\<close>

text \<open>
  In the running program a \<open>Model\<close> is an object: \<open>baseModel\<close> is a reference, which
  nothing in \<open>getAllProperties\<close> prevents from leading back to a model already seen,
  and \<open>properties\<close> and the accumulator are \<open>Map\<close> objects, the second one allocated
  by \<open>new Map\<close> when the caller passes none and then mutated in place. The datatype
  \<open>model\<close> above cannot express a cycle or the identity of a \<open>Map\<close>, so the function
  is embedded a second time, over a graph of model objects and a heap of maps.

  The model objects are only read. The heap holds the contents of every \<open>Map\<close>, the
  next free address, and a trace of the models \<open>getAllProperties\<close> was invoked on
  (\<open>calls\<close>, which the program does not have: it records the invocations so that
  they can be counted).

  The \<open>for\<close> loop reads the entries of \<open>model.properties\<close> and writes
  \<open>outCollection\<close>. When the two are different maps the entries read are those the
  map had before the loop; when they are the same map every \<open>set\<close> stores the value
  the key already has. In both cases the loop is \<open>set_all\<close> on the entries read
  before the loop. A recursion that never returns is the value \<open>None\<close>.
\<close>

type_synonym ref = nat

record modelObject =
  propertiesRef :: ref
  baseModelRef :: "ref option"

record heap =
  maps :: "ref \<Rightarrow> (string \<times> modelProperty) list"
  nextRef :: ref
  calls :: "ref list"

definition newMap :: "heap \<Rightarrow> ref \<times> heap" where
  "newMap h = (nextRef h, h\<lparr>maps := (maps h)(nextRef h := []), nextRef := Suc (nextRef h)\<rparr>)"

partial_function (option) getAllPropertiesRef ::
  "(ref \<Rightarrow> modelObject) \<Rightarrow> ref \<Rightarrow> ref option \<Rightarrow> heap \<Rightarrow> (ref \<times> heap) option" where
  "getAllPropertiesRef g model collection h =
     (let (outCollection, h1) = (case collection of Some c \<Rightarrow> (c, h) | None \<Rightarrow> newMap h);
          h2 = h1\<lparr>maps := (maps h1)(outCollection :=
                       set_all (maps h1 (propertiesRef (g model))) (maps h1 outCollection)),
                  calls := calls h1 @ [model]\<rparr>
      in case baseModelRef (g model) of
           Some b \<Rightarrow> getAllPropertiesRef g b (Some outCollection) h2
         | None \<Rightarrow> Some (outCollection, h2))"

text \<open>
  \<open>chainFrom g m ms\<close>: following \<open>baseModel\<close> from \<open>m\<close> passes through exactly the
  models \<open>ms\<close> and ends at a model without a base. Such a list exists if and only if
  the chain from \<open>m\<close> is acyclic.
\<close>

primrec chainFrom :: "(ref \<Rightarrow> modelObject) \<Rightarrow> ref \<Rightarrow> ref list \<Rightarrow> bool" where
  "chainFrom g m [] = (baseModelRef (g m) = None)"
| "chainFrom g m (b # ms) = (baseModelRef (g m) = Some b \<and> chainFrom g b ms)"

definition chainEntriesRef ::
  "(ref \<Rightarrow> modelObject) \<Rightarrow> heap \<Rightarrow> ref list \<Rightarrow> (string \<times> modelProperty) list" where
  "chainEntriesRef g h ms = concat (map (\<lambda>m. maps h (propertiesRef (g m))) ms)"

text \<open>
  The recursive call at the end of \<open>getAllProperties\<close> is an ordinary call: every
  level of the chain takes one more activation on the engine's call stack, and an
  engine whose stack is full raises \<open>RangeError\<close>. \<open>getAllPropertiesStack\<close> is the
  same function with that made explicit: \<open>frames\<close> is the number of activations of
  \<open>getAllProperties\<close> the stack can still hold when the call is made, and the result
  is the error or what the call returns.
\<close>

datatype error = RangeError

fun getAllPropertiesStack ::
  "nat \<Rightarrow> (ref \<Rightarrow> modelObject) \<Rightarrow> ref \<Rightarrow> ref option \<Rightarrow> heap \<Rightarrow> error + (ref \<times> heap)" where
  "getAllPropertiesStack 0 g model collection h = Inl RangeError"
| "getAllPropertiesStack (Suc frames) g model collection h =
     (let (outCollection, h1) = (case collection of Some c \<Rightarrow> (c, h) | None \<Rightarrow> newMap h);
          h2 = h1\<lparr>maps := (maps h1)(outCollection :=
                       set_all (maps h1 (propertiesRef (g model))) (maps h1 outCollection)),
                  calls := calls h1 @ [model]\<rparr>
      in case baseModelRef (g model) of
           Some b \<Rightarrow> getAllPropertiesStack frames g b (Some outCollection) h2
         | None \<Rightarrow> Inr (outCollection, h2))"

text \<open>The object at \<open>r\<close> and its chain of bases hold what the value \<open>md\<close> describes.\<close>

fun represents :: "(ref \<Rightarrow> modelObject) \<Rightarrow> heap \<Rightarrow> ref \<Rightarrow> model \<Rightarrow> bool" where
  "represents g h r (Model n ps b) =
     (maps h (propertiesRef (g r)) = ps \<and>
      (case b of
         None \<Rightarrow> baseModelRef (g r) = None
       | Some bm \<Rightarrow>
           (case baseModelRef (g r) of
              None \<Rightarrow> False
            | Some br \<Rightarrow> represents g h br bm)))"

section \<open>Example inputs\<close>

definition grandparent :: model where
  "grandparent = Model ''Grandparent''
     [(''id'', ModelProperty ''id'' (TOther ''boolean'')),
      (''created'', ModelProperty ''created'' (TOther ''utcDateTime''))] None"

definition parent :: model where
  "parent = Model ''Parent''
     [(''id'', ModelProperty ''id'' (TOther ''int32''))] (Some grandparent)"

definition child :: model where
  "child = Model ''Child''
     [(''name'', ModelProperty ''name'' (TOther ''string'')),
      (''id'', ModelProperty ''id'' (TOther ''string''))] (Some parent)"

definition errorBody :: model where
  "errorBody = Model ''ErrorBody''
     [(''statusCode'', ModelProperty ''statusCode'' (TString ''404''))] None"

definition okBody :: model where
  "okBody = Model ''OkBody''
     [(''statusCode'', ModelProperty ''statusCode'' (TNumber 200)),
      (''value'', ModelProperty ''value'' (TOther ''string''))] None"

definition createdBody :: model where
  "createdBody = Model ''CreatedBody''
     [(''statusCode'', ModelProperty ''statusCode'' (TNumber 201))] None"





definition pageBase :: model where
  "pageBase = Model ''PageBase''
     [(''nextLink'', ModelProperty ''nextLink'' (TOther ''string''))] None"

definition page :: model where
  "page = Model ''Page'' [] (Some pageBase)"

definition mixedOperation :: httpOperation where
  "mixedOperation =
     \<lparr>responses =
        [\<lparr>rtype = TUnion [UnionVariant ''a'' (TModel errorBody),
                          UnionVariant ''b'' (TModel createdBody),
                          UnionVariant ''c'' (TString ''text'')]\<rparr>,
         \<lparr>rtype = TTuple [TModel errorBody, TModel okBody, TOther ''void'']\<rparr>,
         \<lparr>rtype = TOther ''void''\<rparr>,
         \<lparr>rtype = TModel okBody\<rparr>]\<rparr>"

definition exHttpOperation :: "operation \<Rightarrow> httpOperation \<times> diagnostic list" where
  "exHttpOperation operation =
     (if oname operation = ''failing'' then (\<lparr>responses = [\<lparr>rtype = TModel errorBody\<rparr>]\<rparr>, [])
      else if oname operation = ''list'' then (\<lparr>responses = [\<lparr>rtype = TModel page\<rparr>]\<rparr>, [])
      else (\<lparr>responses = [\<lparr>rtype = TModel errorBody\<rparr>, \<lparr>rtype = TModel okBody\<rparr>]\<rparr>,
            [\<lparr>code = ''http-warning'', target = TargetOther ''route''\<rparr>]))"

definition exProgram :: program where
  "exProgram =
     \<lparr>isErrorModel = (\<lambda>m. name m = ''ErrorBody''),
      isStatusCode = (\<lambda>prop. pname prop = ''statusCode''),
      getHttpOperation = exHttpOperation,
      diagnostics = []\<rparr>"

definition isNextLink :: "modelProperty \<Rightarrow> bool" where
  "isNextLink prop = (pname prop = ''nextLink'')"

text \<open>
  A graph of five model objects: \<open>0\<close>, \<open>1\<close>, \<open>2\<close> are \<open>Child\<close>, \<open>Parent\<close> and
  \<open>Grandparent\<close>; \<open>3\<close> and \<open>4\<close> name each other as base.
\<close>

definition exGraph :: "ref \<Rightarrow> modelObject" where
  "exGraph r =
     (if r = 0 then \<lparr>propertiesRef = 10, baseModelRef = Some 1\<rparr>
      else if r = 1 then \<lparr>propertiesRef = 11, baseModelRef = Some 2\<rparr>
      else if r = 2 then \<lparr>propertiesRef = 12, baseModelRef = None\<rparr>
      else if r = 3 then \<lparr>propertiesRef = 13, baseModelRef = Some 4\<rparr>
      else if r = 4 then \<lparr>propertiesRef = 14, baseModelRef = Some 3\<rparr>
      else \<lparr>propertiesRef = 15, baseModelRef = None\<rparr>)"

text \<open>
  An acyclic chain of \<open>n + 1\<close> models without properties: model \<open>r\<close> has base
  \<open>r + 1\<close>, up to model \<open>n\<close>, which has none.
\<close>

definition deepChain :: "nat \<Rightarrow> ref \<Rightarrow> modelObject" where
  "deepChain n r =
     \<lparr>propertiesRef = r, baseModelRef = (if r < n then Some (Suc r) else None)\<rparr>"

definition emptyMaps :: "nat \<Rightarrow> heap" where
  "emptyMaps n = \<lparr>maps = (\<lambda>r. []), nextRef = Suc n, calls = []\<rparr>"

definition exHeap :: heap where
  "exHeap =
     \<lparr>maps = (\<lambda>r. if r = 10 then properties child
                  else if r = 11 then properties parent
                  else if r = 12 then properties grandparent
                  else []),
      nextRef = 20,
      calls = []\<rparr>"

section \<open>Insertion-ordered maps and the walk along the chain\<close>

lemma map_of_map_set: "map_of (map_set kvs k v) = (map_of kvs)(k \<mapsto> v)"
  by (induction kvs k v rule: map_set.induct) (auto simp: fun_eq_iff)

lemma keys_map_set:
  "map fst (map_set kvs k v) =
     (if k \<in> set (map fst kvs) then map fst kvs else map fst kvs @ [k])"
  by (induction kvs k v rule: map_set.induct) auto

lemma set_all_Nil [simp]: "set_all [] out = out"
  by (simp add: set_all_def)

lemma set_all_Cons [simp]: "set_all ((k, v) # es) out = set_all es (map_set out k v)"
  by (simp add: set_all_def)

lemma set_all_append: "set_all (es @ fs) out = set_all fs (set_all es out)"
  by (simp add: set_all_def)

text \<open>Flattening is one pass of \<open>set\<close> over the entries of the chain, leaf first.\<close>

lemma getAllProperties_chain: "getAllProperties m acc = set_all (chainEntries m) acc"
proof (induction m acc rule: getAllProperties.induct)
  case (1 n ps b collection)
  show ?case
  proof (cases b)
    case None
    then show ?thesis by (simp add: chainEntries_def)
  next
    case (Some bm)
    with 1 show ?thesis by (simp add: chainEntries_def set_all_append)
  qed
qed

lemma map_of_set_all: "map_of (set_all es out) = map_of out ++ map_of (rev es)"
proof (induction es arbitrary: out)
  case Nil
  then show ?case by simp
next
  case (Cons e es)
  obtain k v where e: "e = (k, v)" by (cases e)
  show ?case
    by (simp add: e Cons map_of_map_set fun_eq_iff map_add_def split: option.splits)
qed

lemma firstOccurrences_snoc:
  "firstOccurrences (ks @ [k]) =
     (if k \<in> set ks then firstOccurrences ks else firstOccurrences ks @ [k])"
  by (simp add: firstOccurrences_def)

lemma set_firstOccurrences [simp]: "set (firstOccurrences ks) = set ks"
  by (simp add: firstOccurrences_def)

lemma distinct_firstOccurrences [simp]: "distinct (firstOccurrences ks)"
  by (simp add: firstOccurrences_def)

lemma keys_set_all:
  "map fst out = firstOccurrences ks \<Longrightarrow>
   map fst (set_all es out) = firstOccurrences (ks @ map fst es)"
proof (induction es arbitrary: out ks)
  case Nil
  then show ?case by simp
next
  case (Cons e es)
  obtain k v where e: "e = (k, v)" by (cases e)
  have "map fst (map_set out k v) = firstOccurrences (ks @ [k])"
    using Cons.prems by (simp add: keys_map_set firstOccurrences_snoc)
  from Cons.IH [OF this] show ?case by (simp add: e)
qed

lemma keys_getAllProperties:
  "map fst (getAllProperties m []) = firstOccurrences (map fst (chainEntries m))"
proof -
  have "map fst ([] :: (string \<times> modelProperty) list) = firstOccurrences []"
    by (simp add: firstOccurrences_def)
  from keys_set_all [OF this, of "chainEntries m"] show ?thesis
    by (simp add: getAllProperties_chain)
qed


lemma map_of_getAllProperties:
  "map_of (getAllProperties m []) = map_of (rev (chainEntries m))"
  by (simp add: getAllProperties_chain map_of_set_all)

lemma chainEntries_Model:
  "chainEntries (Model n ps b) = ps @ (case b of Some bm \<Rightarrow> chainEntries bm | None \<Rightarrow> [])"
  by (cases b) (simp_all add: chainEntries_def)











section \<open>Override precedence\<close>

text \<open>
  C1, as stated, fails. \<open>Grandparent\<close>, \<open>Parent\<close> and \<open>Child\<close> all declare \<open>id\<close>, with
  different types. The flattened \<open>Child\<close> maps \<open>id\<close> to the declaration of
  \<open>Grandparent\<close>, not to the one of \<open>Child\<close>: \<open>Map.set\<close> overwrites the entry at each
  level of the walk.
\<close>

theorem flatten_child_id_is_grandparents:
  "map_of (getAllProperties child []) ''id'' = Some (ModelProperty ''id'' (TOther ''boolean'')) \<and>
   map_of (properties child) ''id'' = Some (ModelProperty ''id'' (TOther ''string'')) \<and>
   map_of (getAllProperties child []) ''id'' \<noteq> map_of (properties child) ''id''"
  by (simp add: child_def parent_def grandparent_def)

text \<open>
  C1, amended. For every model and every name, the flattened map holds the
  declaration that the walk from the leaf to the base meets last, that is the one of
  the least derived model declaring the name; an entry already present keeps its
  position and has its value overwritten. The keys stand in the order in which the
  walk first meets them.
\<close>

theorem flatten_last_write_wins:
  "map_of (getAllProperties m []) n = map_of (rev (chainEntries m)) n \<and>
   map fst (getAllProperties m []) = firstOccurrences (map fst (chainEntries m))"
  by (simp add: map_of_getAllProperties keys_getAllProperties)

theorem flatten_last_write_wins_witness:
  "map_of (rev (chainEntries child)) ''id'' = Some (ModelProperty ''id'' (TOther ''boolean'')) \<and>
   map_of (getAllProperties child []) ''id'' = Some (ModelProperty ''id'' (TOther ''boolean'')) \<and>
   map fst (getAllProperties child []) = [''name'', ''id'', ''created'']"
proof -
  have a: "map_of (rev (chainEntries child)) ''id'' = Some (ModelProperty ''id'' (TOther ''boolean''))"
    by (simp add: chainEntries_def child_def parent_def grandparent_def)
  have b: "firstOccurrences (map fst (chainEntries child)) = [''name'', ''id'', ''created'']"
    by (simp add: chainEntries_def firstOccurrences_def child_def parent_def grandparent_def)
  from flatten_last_write_wins [of child "''id''"] a b show ?thesis by simp
qed

section \<open>Flattening on the object graph\<close>

lemma getAllPropertiesRef_root:
  "baseModelRef (g m) = None \<Longrightarrow>
   getAllPropertiesRef g m (Some out) h =
     Some (out, h\<lparr>maps := (maps h)(out := set_all (maps h (propertiesRef (g m))) (maps h out)),
                   calls := calls h @ [m]\<rparr>)"
  by (subst getAllPropertiesRef.simps) simp

lemma getAllPropertiesRef_step:
  "baseModelRef (g m) = Some b \<Longrightarrow>
   getAllPropertiesRef g m (Some out) h =
     getAllPropertiesRef g b (Some out)
       (h\<lparr>maps := (maps h)(out := set_all (maps h (propertiesRef (g m))) (maps h out)),
          calls := calls h @ [m]\<rparr>)"
  by (subst getAllPropertiesRef.simps) simp

text \<open>A call without accumulator is a call on a fresh, empty map.\<close>

lemma getAllPropertiesRef_fresh:
  "getAllPropertiesRef g m None h = getAllPropertiesRef g m (Some (nextRef h)) (snd (newMap h))"
  using getAllPropertiesRef.simps [of g m None h]
    getAllPropertiesRef.simps [of g m "Some (nextRef h)" "snd (newMap h)"]
  by (simp add: newMap_def)

lemma getAllPropertiesRef_returns:
  "chainFrom g m ms \<Longrightarrow>
   \<exists>h'. getAllPropertiesRef g m (Some out) h = Some (out, h') \<and> calls h' = calls h @ m # ms"
proof (induction ms arbitrary: m h)
  case Nil
  then show ?case by (simp add: getAllPropertiesRef_root)
next
  case (Cons b ms)
  then have b: "baseModelRef (g m) = Some b" and rest: "chainFrom g b ms" by simp_all
  let ?h2 = "h\<lparr>maps := (maps h)(out := set_all (maps h (propertiesRef (g m))) (maps h out)),
                 calls := calls h @ [m]\<rparr>"
  from Cons.IH [OF rest, of ?h2] obtain h' where
    "getAllPropertiesRef g b (Some out) ?h2 = Some (out, h')" "calls h' = calls ?h2 @ b # ms"
    by blast
  then show ?case
    by (simp add: getAllPropertiesRef_step [where g = g and m = m, OF b])
qed

text \<open>
  The heap a call leaves behind, when the accumulator is none of the property maps of
  the chain: only the accumulator has changed.
\<close>

lemma getAllPropertiesRef_result:
  "chainFrom g m ms \<Longrightarrow> \<forall>x \<in> set (m # ms). propertiesRef (g x) \<noteq> out \<Longrightarrow>
   getAllPropertiesRef g m (Some out) h =
     Some (out, h\<lparr>maps := (maps h)(out := set_all (chainEntriesRef g h (m # ms)) (maps h out)),
                   calls := calls h @ m # ms\<rparr>)"
proof (induction ms arbitrary: m h)
  case Nil
  have "chainEntriesRef g h [m] = maps h (propertiesRef (g m))"
    by (simp add: chainEntriesRef_def)
  with Nil show ?case by (simp only: getAllPropertiesRef_root chainFrom.simps)
next
  case (Cons b ms)
  then have b: "baseModelRef (g m) = Some b" and rest: "chainFrom g b ms"
    and sep: "\<forall>x \<in> set (b # ms). propertiesRef (g x) \<noteq> out"
    and sepm: "propertiesRef (g m) \<noteq> out" by simp_all
  let ?h2 = "h\<lparr>maps := (maps h)(out := set_all (maps h (propertiesRef (g m))) (maps h out)),
                 calls := calls h @ [m]\<rparr>"
  have same: "chainEntriesRef g ?h2 (b # ms) = chainEntriesRef g h (b # ms)"
    unfolding chainEntriesRef_def using sep by (intro arg_cong [where f = concat] map_cong) auto
  have split: "chainEntriesRef g h (m # b # ms) =
               maps h (propertiesRef (g m)) @ chainEntriesRef g h (b # ms)"
    by (simp add: chainEntriesRef_def)
  have out: "maps ?h2 out = set_all (maps h (propertiesRef (g m))) (maps h out)"
    by simp
  have heap_eq: "?h2\<lparr>maps := (maps ?h2)(out := es), calls := calls ?h2 @ b # ms\<rparr> =
                 h\<lparr>maps := (maps h)(out := es), calls := calls h @ m # b # ms\<rparr>" for es
    by simp
  show ?case
    unfolding getAllPropertiesRef_step [where g = g and m = m, OF b]
      Cons.IH [OF rest sep] same split set_all_append out heap_eq ..
qed

lemma chainEntriesRef_cong:
  "\<forall>x \<in> set ms. maps h' (propertiesRef (g x)) = maps h (propertiesRef (g x)) \<Longrightarrow>
   chainEntriesRef g h' ms = chainEntriesRef g h ms"
  unfolding chainEntriesRef_def by (intro arg_cong [where f = concat] map_cong) auto

lemma getAllPropertiesRef_fresh_result:
  assumes chain: "chainFrom g m ms"
    and alloc: "\<forall>x \<in> set (m # ms). propertiesRef (g x) < nextRef h"
  shows "getAllPropertiesRef g m None h =
     Some (nextRef h,
           h\<lparr>maps := (maps h)(nextRef h := set_all (chainEntriesRef g h (m # ms)) []),
             nextRef := Suc (nextRef h),
             calls := calls h @ m # ms\<rparr>)"
proof -
  let ?n = "nextRef h"
  let ?h0 = "h\<lparr>maps := (maps h)(?n := []), nextRef := Suc ?n\<rparr>"
  have sep: "\<forall>x \<in> set (m # ms). propertiesRef (g x) \<noteq> ?n"
    using alloc by auto
  have same: "chainEntriesRef g ?h0 (m # ms) = chainEntriesRef g h (m # ms)"
    by (rule chainEntriesRef_cong) (use sep in auto)
  have heap_eq: "?h0\<lparr>maps := (maps ?h0)(?n := es), calls := calls ?h0 @ m # ms\<rparr> =
        h\<lparr>maps := (maps h)(?n := es), nextRef := Suc ?n, calls := calls h @ m # ms\<rparr>" for es
    by simp
  have "getAllPropertiesRef g m None h = getAllPropertiesRef g m (Some ?n) ?h0"
    by (simp add: getAllPropertiesRef_fresh newMap_def)
  also have "\<dots> = Some (?n, ?h0\<lparr>maps := (maps ?h0)(?n := set_all (chainEntriesRef g ?h0 (m # ms)) (maps ?h0 ?n)),
                               calls := calls ?h0 @ m # ms\<rparr>)"
    by (rule getAllPropertiesRef_result [OF chain sep])
  also have "maps ?h0 ?n = []" by simp
  finally show ?thesis unfolding same heap_eq .
qed

text \<open>The chain from a model is unique and passes through no model twice.\<close>

lemma chainFrom_unique: "chainFrom g m ms \<Longrightarrow> chainFrom g m ms' \<Longrightarrow> ms = ms'"
proof (induction ms arbitrary: m ms')
  case Nil
  then show ?case by (cases ms') simp_all
next
  case (Cons b ms)
  then show ?case by (cases ms') auto
qed

lemma chainFrom_suffix:
  "chainFrom g m ms \<Longrightarrow> x \<in> set ms \<Longrightarrow> \<exists>ms'. chainFrom g x ms' \<and> length ms' < length ms"
proof (induction ms arbitrary: m)
  case Nil
  then show ?case by simp
next
  case (Cons b ms)
  show ?case
  proof (cases "x = b")
    case True
    with Cons.prems show ?thesis by auto
  next
    case False
    with Cons.prems have "chainFrom g b ms" "x \<in> set ms" by simp_all
    from Cons.IH [OF this] show ?thesis by auto
  qed
qed

lemma chainFrom_distinct: "chainFrom g m ms \<Longrightarrow> distinct (m # ms)"
proof (induction ms arbitrary: m)
  case Nil
  then show ?case by simp
next
  case (Cons b ms)
  then have rest: "chainFrom g b ms" by simp
  have "m \<notin> set (b # ms)"
  proof
    assume "m \<in> set (b # ms)"
    from chainFrom_suffix [OF Cons.prems this]
    obtain ms' where "chainFrom g m ms'" "length ms' < length (b # ms)" by blast
    with chainFrom_unique [OF Cons.prems, of ms'] show False by simp
  qed
  with Cons.IH [OF rest] show ?case by simp
qed

text \<open>A call that returns has walked a chain that ends.\<close>

lemma getAllPropertiesRef_Some_chain:
  "getAllPropertiesRef g m collection h = Some y \<Longrightarrow> \<exists>ms. chainFrom g m ms"
proof (induction rule: getAllPropertiesRef.raw_induct [rotated, consumes 1])
  case (1 f g m collection h y)
  show ?case
  proof (cases "baseModelRef (g m)")
    case None
    then have "chainFrom g m []" by simp
    then show ?thesis ..
  next
    case (Some b)
    with 1(2) obtain c' h' where "f g b c' h' = Some y"
      by (auto simp: Let_def split: prod.splits)
    then have "\<exists>ms. chainFrom g b ms" by (rule 1(1))
    then obtain ms where "chainFrom g b ms" ..
    with Some have "chainFrom g m (b # ms)" by simp
    then show ?thesis ..
  qed
qed

lemma getAllPropertiesRef_diverges:
  "\<forall>ms. \<not> chainFrom g m ms \<Longrightarrow> getAllPropertiesRef g m collection h = None"
  using getAllPropertiesRef_Some_chain [of g m collection h]
  by (cases "getAllPropertiesRef g m collection h") auto

lemma no_chain_in_cycle: "\<not> chainFrom exGraph 3 ms \<and> \<not> chainFrom exGraph 4 ms"
  by (induction ms) (auto simp: exGraph_def)

text \<open>
  The two embeddings agree: on an object graph that holds the model \<open>md\<close> at \<open>r\<close>,
  with every property map allocated, the call returns a map whose content is
  \<open>getAllProperties md []\<close>.
\<close>

lemma represents_chain:
  "represents g h r md \<Longrightarrow>
   \<exists>ms. chainFrom g r ms \<and> chainEntriesRef g h (r # ms) = chainEntries md"
proof (induction g h r md rule: represents.induct)
  case (1 g h r n ps b)
  show ?case
  proof (cases b)
    case None
    with 1(2) have "chainFrom g r [] \<and> chainEntriesRef g h [r] = chainEntries (Model n ps b)"
      by (simp add: chainEntriesRef_def chainEntries_Model)
    then show ?thesis by blast
  next
    case (Some bm)
    with 1(2) obtain br where br: "baseModelRef (g r) = Some br" "represents g h br bm"
      and ps: "maps h (propertiesRef (g r)) = ps"
      by (auto split: option.splits)
    from 1(1) [OF Some br(1) br(2)] obtain ms where
      "chainFrom g br ms" "chainEntriesRef g h (br # ms) = chainEntries bm" by blast
    with br ps Some have "chainFrom g r (br # ms) \<and>
        chainEntriesRef g h (r # br # ms) = chainEntries (Model n ps b)"
      by (simp add: chainEntriesRef_def chainEntries_Model)
    then show ?thesis by blast
  qed
qed

lemma getAllPropertiesRef_refines:
  assumes "represents g h r md" and "\<forall>x. propertiesRef (g x) < nextRef h"
  shows "\<exists>out h'. getAllPropertiesRef g r None h = Some (out, h') \<and>
           maps h' out = getAllProperties md []"
proof -
  from represents_chain [OF assms(1)] obtain ms where
    ms: "chainFrom g r ms" "chainEntriesRef g h (r # ms) = chainEntries md" by blast
  from assms(2) have "\<forall>x \<in> set (r # ms). propertiesRef (g x) < nextRef h" by blast
  from getAllPropertiesRef_fresh_result [OF ms(1) this] ms(2) show ?thesis
    by (simp add: getAllProperties_chain)
qed

lemma exGraph_represents_child: "represents exGraph exHeap 0 child"
  by (simp add: exGraph_def exHeap_def child_def parent_def grandparent_def)

text \<open>
  Without a bound on the stack the recursion ends exactly when the chain ends.
\<close>

lemma getAllPropertiesRef_returns_iff_chain:
  "(\<exists>r. getAllPropertiesRef g m collection h = Some r) = (\<exists>ms. chainFrom g m ms)"
proof
  assume "\<exists>r. getAllPropertiesRef g m collection h = Some r"
  then show "\<exists>ms. chainFrom g m ms" using getAllPropertiesRef_Some_chain by blast
next
  assume "\<exists>ms. chainFrom g m ms"
  then obtain ms where chain: "chainFrom g m ms" ..
  show "\<exists>r. getAllPropertiesRef g m collection h = Some r"
  proof (cases collection)
    case None
    from getAllPropertiesRef_returns [OF chain, of "nextRef h" "snd (newMap h)"]
    show ?thesis by (auto simp: None getAllPropertiesRef_fresh)
  next
    case (Some out)
    from getAllPropertiesRef_returns [OF chain, of out h]
    show ?thesis by (auto simp: Some)
  qed
qed

section \<open>Flattening on a bounded call stack\<close>

lemma getAllPropertiesStack_fresh:
  "getAllPropertiesStack frames g m None h =
   getAllPropertiesStack frames g m (Some (nextRef h)) (snd (newMap h))"
  by (cases frames) (simp_all add: newMap_def)

lemma getAllPropertiesStack_returns:
  "chainFrom g m ms \<Longrightarrow> length ms < frames \<Longrightarrow>
   \<exists>h'. getAllPropertiesStack frames g m (Some out) h = Inr (out, h') \<and>
        calls h' = calls h @ m # ms"
proof (induction ms arbitrary: m h frames)
  case Nil
  then obtain f where "frames = Suc f" by (cases frames) simp_all
  with Nil show ?case by simp
next
  case (Cons b ms)
  then obtain f where f: "frames = Suc f" "length ms < f" by (cases frames) simp_all
  from Cons.prems have b: "baseModelRef (g m) = Some b" and rest: "chainFrom g b ms" by simp_all
  let ?h2 = "h\<lparr>maps := (maps h)(out := set_all (maps h (propertiesRef (g m))) (maps h out)),
                 calls := calls h @ [m]\<rparr>"
  from Cons.IH [OF rest f(2), of ?h2] obtain h' where
    "getAllPropertiesStack f g b (Some out) ?h2 = Inr (out, h')" "calls h' = calls ?h2 @ b # ms"
    by blast
  then show ?case by (simp add: f b)
qed

lemma getAllPropertiesStack_overflow:
  "chainFrom g m ms \<Longrightarrow> frames \<le> length ms \<Longrightarrow>
   getAllPropertiesStack frames g m collection h = Inl RangeError"
proof (induction frames arbitrary: m ms collection h)
  case 0
  then show ?case by simp
next
  case (Suc f)
  then obtain b ms' where ms: "ms = b # ms'" by (cases ms) simp_all
  with Suc.prems have b: "baseModelRef (g m) = Some b" and rest: "chainFrom g b ms'"
    and le: "f \<le> length ms'" by simp_all
  show ?case
    by (simp add: b Let_def Suc.IH [OF rest le] split: prod.splits)
qed

lemma getAllPropertiesStack_Inr_chain:
  "getAllPropertiesStack frames g m collection h = Inr r \<Longrightarrow>
   \<exists>ms. chainFrom g m ms \<and> length ms < frames"
proof (induction frames arbitrary: m collection h)
  case 0
  then show ?case by simp
next
  case (Suc f)
  show ?case
  proof (cases "baseModelRef (g m)")
    case None
    then have "chainFrom g m [] \<and> length ([] :: ref list) < Suc f" by simp
    then show ?thesis by blast
  next
    case (Some b)
    with Suc.prems obtain c' h' where "getAllPropertiesStack f g b c' h' = Inr r"
      by (auto simp: Let_def split: prod.splits)
    from Suc.IH [OF this] obtain ms where "chainFrom g b ms" "length ms < f" by blast
    with Some have "chainFrom g m (b # ms) \<and> length (b # ms) < Suc f" by simp
    then show ?thesis by blast
  qed
qed

lemma getAllPropertiesStack_cycle:
  assumes "\<forall>ms. \<not> chainFrom g m ms"
  shows "getAllPropertiesStack frames g m collection h = Inl RangeError"
proof (cases "getAllPropertiesStack frames g m collection h")
  case (Inl e)
  then show ?thesis by (cases e) simp
next
  case (Inr r)
  from getAllPropertiesStack_Inr_chain [OF this] assms show ?thesis by blast
qed

text \<open>What a call returns on a bounded stack, it returns without the bound.\<close>

lemma getAllPropertiesStack_Ref:
  "getAllPropertiesStack frames g m collection h = Inr r \<Longrightarrow>
   getAllPropertiesRef g m collection h = Some r"
proof (induction frames arbitrary: m collection h)
  case 0
  then show ?case by simp
next
  case (Suc f)
  show ?case
  proof (cases "baseModelRef (g m)")
    case None
    with Suc.prems show ?thesis
      by (subst getAllPropertiesRef.simps) (simp add: Let_def split: prod.splits)
  next
    case (Some b)
    obtain out h1 where c: "(case collection of Some c \<Rightarrow> (c, h) | None \<Rightarrow> newMap h) = (out, h1)"
      by (cases "case collection of Some c \<Rightarrow> (c, h) | None \<Rightarrow> newMap h")
    let ?h2 = "h1\<lparr>maps := (maps h1)(out := set_all (maps h1 (propertiesRef (g m))) (maps h1 out)),
                  calls := calls h1 @ [m]\<rparr>"
    from Suc.prems Some c have "getAllPropertiesStack f g b (Some out) ?h2 = Inr r"
      by (simp add: Let_def)
    from Suc.IH [OF this] Some c show ?thesis
      by (subst getAllPropertiesRef.simps) (simp add: Let_def)
  qed
qed

lemma deepChain_chain: "m \<le> n \<Longrightarrow> chainFrom (deepChain n) m [Suc m..<Suc n]"
proof (induction "n - m" arbitrary: m)
  case 0
  then have "m = n" by simp
  then show ?case by (simp add: deepChain_def)
next
  case (Suc k)
  then have lt: "m < n" and k: "k = n - Suc m" and le: "Suc m \<le> n" by simp_all
  from Suc.hyps(1) [OF k le] have "chainFrom (deepChain n) (Suc m) [Suc (Suc m)..<Suc n]" .
  moreover have "[Suc m..<Suc n] = Suc m # [Suc (Suc m)..<Suc n]"
    using lt by (simp add: upt_conv_Cons)
  ultimately show ?case using lt by (simp add: deepChain_def)
qed

text \<open>
  C6, as stated, fails where it promises a result on a chain of any depth. The chain
  of \<open>deepChain 4000\<close> is acyclic and has 4001 models; on a stack that holds 4000
  activations the call on its leaf does not return the flattened map: it fails with
  \<open>RangeError\<close>.
\<close>

theorem getAllPropertiesStack_deep_chain_overflows:
  "chainFrom (deepChain 4000) 0 [Suc 0..<Suc 4000] \<and>
   getAllPropertiesStack 4000 (deepChain 4000) 0 None (emptyMaps 4000) = Inl RangeError"
proof -
  have a: "chainFrom (deepChain 4000) 0 [Suc 0..<Suc 4000]"
    by (rule deepChain_chain) simp
  have "getAllPropertiesStack 4000 (deepChain 4000) 0 None (emptyMaps 4000) = Inl RangeError"
    by (rule getAllPropertiesStack_overflow [OF a]) simp
  with a show ?thesis by simp
qed

text \<open>
  C6, amended. When the chain from \<open>m\<close> is acyclic, passing through the models
  \<open>ms\<close> to a model without base, and the stack holds an activation for each model
  of the chain, the call returns; \<open>getAllProperties\<close> has been invoked on \<open>m # ms\<close>
  in this order, once on each, and these models are pairwise different. When the
  stack holds fewer activations than the chain has models, the call fails with
  \<open>RangeError\<close>. When the chain runs into a cycle, the call fails with \<open>RangeError\<close>
  whatever the stack holds: the function has no visited set and no depth bound of
  its own, the failure is the engine's.
\<close>

theorem getAllPropertiesStack_returns_within_stack:
  "(chainFrom g m ms \<and> length ms < frames \<longrightarrow>
      distinct (m # ms) \<and>
      (\<exists>out h'. getAllPropertiesStack frames g m collection h = Inr (out, h') \<and>
                 calls h' = calls h @ m # ms)) \<and>
   (chainFrom g m ms \<and> frames \<le> length ms \<longrightarrow>
      getAllPropertiesStack frames g m collection h = Inl RangeError) \<and>
   ((\<forall>ms. \<not> chainFrom g m ms) \<longrightarrow>
      getAllPropertiesStack frames g m collection h = Inl RangeError)"
proof (intro conjI impI)
  assume a: "chainFrom g m ms \<and> length ms < frames"
  then have chain: "chainFrom g m ms" and len: "length ms < frames" by simp_all
  from chain show "distinct (m # ms)" by (rule chainFrom_distinct)
  show "\<exists>out h'. getAllPropertiesStack frames g m collection h = Inr (out, h') \<and>
                 calls h' = calls h @ m # ms"
  proof (cases collection)
    case None
    from getAllPropertiesStack_returns [OF chain len, of "nextRef h" "snd (newMap h)"]
    show ?thesis by (auto simp: None getAllPropertiesStack_fresh newMap_def)
  next
    case (Some out)
    from getAllPropertiesStack_returns [OF chain len, of out h]
    show ?thesis by (auto simp: Some)
  qed
next
  assume "chainFrom g m ms \<and> frames \<le> length ms"
  then have "chainFrom g m ms" "frames \<le> length ms" by simp_all
  then show "getAllPropertiesStack frames g m collection h = Inl RangeError"
    by (rule getAllPropertiesStack_overflow)
next
  assume "\<forall>ms. \<not> chainFrom g m ms"
  then show "getAllPropertiesStack frames g m collection h = Inl RangeError"
    by (rule getAllPropertiesStack_cycle)
qed

theorem getAllPropertiesStack_returns_within_stack_witness:
  "chainFrom exGraph 0 [1, 2] \<and> distinct [0 :: ref, 1, 2] \<and>
   (\<exists>out h'. getAllPropertiesStack 3 exGraph 0 None exHeap = Inr (out, h') \<and>
              calls h' = [0, 1, 2]) \<and>
   getAllPropertiesStack 2 exGraph 0 None exHeap = Inl RangeError \<and>
   (\<forall>ms. \<not> chainFrom exGraph 4 ms) \<and>
   getAllPropertiesStack 10000 exGraph 4 None exHeap = Inl RangeError"
proof -
  have a: "chainFrom exGraph 0 [1, 2]" by (simp add: exGraph_def)
  have b: "\<forall>ms. \<not> chainFrom exGraph 4 ms" using no_chain_in_cycle by blast
  have c: "calls exHeap = []" by (simp add: exHeap_def)
  from getAllPropertiesStack_returns_within_stack [of exGraph 0 "[1, 2]" 3 None exHeap] a c
    getAllPropertiesStack_returns_within_stack [of exGraph 0 "[1, 2]" 2 None exHeap]
    getAllPropertiesStack_returns_within_stack [of exGraph 4 "[]" 10000 None exHeap] b
  show ?thesis by simp
qed

section \<open>Repeating the flattening\<close>

text \<open>
  C8. On an acyclic chain whose property maps are allocated (so that a new map is
  none of them), two invocations without accumulator, one after the other, both
  return; they return two different maps with the same entries in the same order,
  and the second invocation leaves the map of the first as it was.
\<close>

theorem getAllPropertiesRef_repeatable:
  assumes chain: "chainFrom g m ms"
    and alloc: "\<forall>x \<in> set (m # ms). propertiesRef (g x) < nextRef h"
  shows "\<exists>out1 h1 out2 h2.
           getAllPropertiesRef g m None h = Some (out1, h1) \<and>
           getAllPropertiesRef g m None h1 = Some (out2, h2) \<and>
           out1 \<noteq> out2 \<and>
           maps h2 out2 = maps h1 out1 \<and>
           maps h2 out1 = maps h1 out1"
proof -
  let ?n = "nextRef h"
  let ?es = "set_all (chainEntriesRef g h (m # ms)) []"
  let ?h1 = "h\<lparr>maps := (maps h)(?n := ?es), nextRef := Suc ?n, calls := calls h @ m # ms\<rparr>"
  let ?es1 = "set_all (chainEntriesRef g ?h1 (m # ms)) []"
  let ?h2 = "?h1\<lparr>maps := (maps ?h1)(nextRef ?h1 := ?es1), nextRef := Suc (nextRef ?h1),
                 calls := calls ?h1 @ m # ms\<rparr>"
  have first: "getAllPropertiesRef g m None h = Some (?n, ?h1)"
    by (rule getAllPropertiesRef_fresh_result [OF chain alloc])
  have alloc1: "\<forall>x \<in> set (m # ms). propertiesRef (g x) < nextRef ?h1"
    using alloc by auto
  have second: "getAllPropertiesRef g m None ?h1 = Some (nextRef ?h1, ?h2)"
    by (rule getAllPropertiesRef_fresh_result [OF chain alloc1])
  have same: "chainEntriesRef g ?h1 (m # ms) = chainEntriesRef g h (m # ms)"
    by (rule chainEntriesRef_cong) (use alloc in auto)
  have "?n \<noteq> nextRef ?h1" by simp
  moreover have "maps ?h2 (nextRef ?h1) = maps ?h1 ?n" by (simp add: same)
  moreover have "maps ?h2 ?n = maps ?h1 ?n" by simp
  ultimately show ?thesis using first second by blast
qed

theorem getAllPropertiesRef_repeatable_witness:
  "chainFrom exGraph 0 [1, 2] \<and>
   propertiesRef (exGraph 0) < nextRef exHeap \<and>
   propertiesRef (exGraph 1) < nextRef exHeap \<and>
   propertiesRef (exGraph 2) < nextRef exHeap \<and>
   (\<exists>out1 h1 out2 h2.
           getAllPropertiesRef exGraph 0 None exHeap = Some (out1, h1) \<and>
           getAllPropertiesRef exGraph 0 None h1 = Some (out2, h2) \<and>
           out1 \<noteq> out2 \<and>
           maps h2 out2 = maps h1 out1 \<and>
           maps h2 out1 = maps h1 out1)"
proof -
  have a: "chainFrom exGraph 0 [1, 2]" by (simp add: exGraph_def)
  have b: "\<forall>x \<in> set [0, 1, 2]. propertiesRef (exGraph x) < nextRef exHeap"
    by (simp add: exGraph_def exHeap_def)
  from getAllPropertiesRef_repeatable [OF a b] a b show ?thesis by simp
qed

section \<open>The response models of an operation\<close>

lemma pushIfModel_eq: "pushIfModel p t ms = ms @ filter p (modelOf t)"
  by (cases t) (simp_all add: pushIfModel_def modelOf_def)

lemma fold_pushIfModel:
  "fold (\<lambda>x ms. pushIfModel p (f x) ms) xs acc =
   acc @ filter p (concat (map (\<lambda>x. modelOf (f x)) xs))"
  by (induction xs arbitrary: acc) (simp_all add: pushIfModel_eq)

lemma visitResponse_eq: "visitResponse p r acc = acc @ filter p (bodyModels (rtype r))"
proof (cases "rtype r")
  case (TUnion vs)
  then show ?thesis
    by (simp add: visitResponse_def bodyModels_def fold_pushIfModel)
next
  case (TTuple ts)
  then show ?thesis
    using fold_pushIfModel [of p "\<lambda>t. t" ts acc]
    by (simp add: visitResponse_def bodyModels_def)
qed (simp_all add: visitResponse_def bodyModels_def)

lemma fold_visitResponse:
  "fold (visitResponse p) rs acc =
   acc @ concat (map (\<lambda>r. filter p (bodyModels (rtype r))) rs)"
  by (induction rs arbitrary: acc) (simp_all add: visitResponse_eq)

lemma filterResponseModels_eq:
  "filterResponseModels operation p =
     (let ms = concat (map (\<lambda>r. filter p (bodyModels (rtype r))) (responses operation))
      in if ms = [] then None else Some ms)"
  by (simp add: filterResponseModels_def fold_visitResponse Let_def)

lemma filter_responseModels:
  "filter p (responseModels operation) =
   concat (map (\<lambda>r. filter p (bodyModels (rtype r))) (responses operation))"
  by (simp add: responseModels_def filter_concat comp_def)

lemma filterResponseModels_filter:
  "filterResponseModels operation p =
     (if filter p (responseModels operation) = [] then None
      else Some (filter p (responseModels operation)))"
  by (simp add: filterResponseModels_eq filter_responseModels Let_def)

lemma candidates_filterResponseModels:
  "candidates (filterResponseModels operation p) =
   concat (map (\<lambda>r. filter p (bodyModels (rtype r))) (responses operation))"
proof (cases "concat (map (\<lambda>r. filter p (bodyModels (rtype r))) (responses operation)) = []")
  case True
  then show ?thesis
    unfolding filterResponseModels_eq candidates_def Let_def by simp
next
  case False
  then show ?thesis
    unfolding filterResponseModels_eq candidates_def Let_def by simp
qed

lemma filter_bodyModels_shape:
  "filter p (bodyModels t) =
     (case t of
         TModel m \<Rightarrow> if p m then [m] else []
       | TUnion variants \<Rightarrow> filter p (concat (map (\<lambda>variant. modelOf (vtype variant)) variants))
       | TTuple vals \<Rightarrow> filter p (concat (map modelOf vals))
       | _ \<Rightarrow> [])"
  by (cases t) (simp_all add: bodyModels_def)

text \<open>
  C7. The models \<open>filterResponseModels\<close> collects are, response after response in
  declaration order, the body itself when it is a model satisfying the predicate;
  for a union the variants, in their order, whose type is a model satisfying the
  predicate; for a tuple the elements, in their order, that are such models; and
  nothing for a member that is not a model or for a body of any other kind.
\<close>

theorem filterResponseModels_by_shape:
  "candidates (filterResponseModels operation p) =
     concat (map (\<lambda>response.
       case rtype response of
         TModel m \<Rightarrow> if p m then [m] else []
       | TUnion variants \<Rightarrow> filter p (concat (map (\<lambda>variant. modelOf (vtype variant)) variants))
       | TTuple vals \<Rightarrow> filter p (concat (map modelOf vals))
       | _ \<Rightarrow> []) (responses operation))"
  unfolding candidates_filterResponseModels filter_bodyModels_shape ..

theorem filterResponseModels_by_shape_witness:
  "candidates (filterResponseModels mixedOperation (\<lambda>m. \<not> isErrorModel exProgram m)) =
     [createdBody, okBody, okBody]"
  using filterResponseModels_by_shape [of mixedOperation "\<lambda>m. \<not> isErrorModel exProgram m"]
  by (simp add: mixedOperation_def modelOf_def exProgram_def errorBody_def okBody_def
      createdBody_def)

text \<open>
  C5. \<open>filterResponseModels\<close> returns the models of all responses that satisfy the
  predicate, in order, when there is at least one, and \<open>undefined\<close> when there is
  none; it never returns an empty array.
\<close>

theorem filterResponseModels_sentinel:
  "filterResponseModels operation p =
     (if filter p (responseModels operation) = [] then None
      else Some (filter p (responseModels operation))) \<and>
   filterResponseModels operation p \<noteq> Some []"
  by (simp add: filterResponseModels_filter)

theorem filterResponseModels_sentinel_witness:
  "filterResponseModels \<lparr>responses = []\<rparr> (\<lambda>m. True) = None \<and>
   filterResponseModels \<lparr>responses = [\<lparr>rtype = TModel errorBody\<rparr>]\<rparr>
     (\<lambda>m. \<not> isErrorModel exProgram m) = None \<and>
   filterResponseModels \<lparr>responses = [\<lparr>rtype = TModel errorBody\<rparr>, \<lparr>rtype = TModel okBody\<rparr>]\<rparr>
     (\<lambda>m. \<not> isErrorModel exProgram m) = Some [okBody]"
  using filterResponseModels_sentinel [of "\<lparr>responses = []\<rparr>" "\<lambda>m. True"]
    filterResponseModels_sentinel [of "\<lparr>responses = [\<lparr>rtype = TModel errorBody\<rparr>]\<rparr>"
      "\<lambda>m. \<not> isErrorModel exProgram m"]
    filterResponseModels_sentinel
      [of "\<lparr>responses = [\<lparr>rtype = TModel errorBody\<rparr>, \<lparr>rtype = TModel okBody\<rparr>]\<rparr>"
      "\<lambda>m. \<not> isErrorModel exProgram m"]
  by (simp add: responseModels_def bodyModels_def exProgram_def errorBody_def okBody_def)

section \<open>Success classification\<close>


lemma filter_head_find:
  "(case filter q xs of [] \<Rightarrow> None | c # _ \<Rightarrow> Some c) = List.find q xs"
  by (induction xs) simp_all









section \<open>The reporting boundary\<close>

lemma statusCodeAccepted_diagnostics:
  "statusCodeAccepted (prog\<lparr>diagnostics := ds\<rparr>) = statusCodeAccepted prog"
  by (rule ext) (simp add: statusCodeAccepted_def getStatusCodeProperty_def)

lemma getSuccessResponse_diagnostics [simp]:
  "getSuccessResponse (prog\<lparr>diagnostics := ds\<rparr>) httpOp = getSuccessResponse prog httpOp"
  by (simp add: getSuccessResponse_def statusCodeAccepted_diagnostics)

lemma getHttpMetadata_eq:
  "getHttpMetadata prog operation =
     (fst (getHttpOperation prog operation),
      prog\<lparr>diagnostics := diagnostics prog @ snd (getHttpOperation prog operation)\<rparr>)"
  by (cases "getHttpOperation prog operation")
     (simp add: getHttpMetadata_def reportDiagnostics_def)

lemma exProgram_failing:
  "getSuccessResponse exProgram (fst (getHttpOperation exProgram (Operation ''failing''))) = None"
  by (simp add: getSuccessResponse_def filterResponseModels_def visitResponse_def
      exProgram_def exHttpOperation_def errorBody_def)

lemma exProgram_read:
  "getSuccessResponse exProgram (fst (getHttpOperation exProgram (Operation ''read''))) = Some okBody"
  by (simp add: getSuccessResponse_def filterResponseModels_def visitResponse_def
      statusCodeAccepted_def getStatusCodeProperty_def filterModelProperties_def map_values_def
      exProgram_def exHttpOperation_def errorBody_def okBody_def)

text \<open>
  C4. When the operation has no success response, \<open>getOperationResponse\<close> returns
  (the value \<open>undefined\<close>) and has appended to the program's diagnostics, after
  those of the HTTP layer, exactly one diagnostic, with code
  \<open>expected-success-response\<close> and the operation as target. When the operation has
  a success response, that model is returned and only the diagnostics of the HTTP
  layer are appended.
\<close>

theorem getOperationResponse_reports:
  "(getSuccessResponse prog (fst (getHttpOperation prog operation)) = None \<longrightarrow>
      getOperationResponse prog operation =
        (None, prog\<lparr>diagnostics := diagnostics prog @ snd (getHttpOperation prog operation)
                                      @ [expectedSuccessResponse operation]\<rparr>)) \<and>
   (\<forall>m. getSuccessResponse prog (fst (getHttpOperation prog operation)) = Some m \<longrightarrow>
      getOperationResponse prog operation =
        (Some m, prog\<lparr>diagnostics := diagnostics prog @ snd (getHttpOperation prog operation)\<rparr>))"
  by (simp add: getOperationResponse_def getHttpMetadata_eq reportDiagnostic_def
      expectedSuccessResponse_def Let_def)

theorem getOperationResponse_reports_witness:
  "getSuccessResponse exProgram (fst (getHttpOperation exProgram (Operation ''failing''))) = None \<and>
   getOperationResponse exProgram (Operation ''failing'') =
     (None, exProgram\<lparr>diagnostics := [expectedSuccessResponse (Operation ''failing'')]\<rparr>) \<and>
   getSuccessResponse exProgram (fst (getHttpOperation exProgram (Operation ''read''))) = Some okBody \<and>
   getOperationResponse exProgram (Operation ''read'') =
     (Some okBody, exProgram\<lparr>diagnostics := [\<lparr>code = ''http-warning'', target = TargetOther ''route''\<rparr>]\<rparr>)"
  using exProgram_failing exProgram_read
    getOperationResponse_reports [of exProgram "Operation ''failing''"]
    getOperationResponse_reports [of exProgram "Operation ''read''"]
  by (simp add: exProgram_def exHttpOperation_def)

text \<open>
  C9. What \<open>getOperationResponse\<close> returns is the result of \<open>getSuccessResponse\<close>
  itself; when there is no success response the caller receives \<open>undefined\<close>, not a
  model constructed in its place.
\<close>

theorem getOperationResponse_returns_absent:
  "fst (getOperationResponse prog operation) =
     getSuccessResponse prog (fst (getHttpOperation prog operation)) \<and>
   (getSuccessResponse prog (fst (getHttpOperation prog operation)) = None \<longrightarrow>
      fst (getOperationResponse prog operation) = None)"
  by (simp add: getOperationResponse_def getHttpMetadata_eq Let_def)

theorem getOperationResponse_returns_absent_witness:
  "getSuccessResponse exProgram (fst (getHttpOperation exProgram (Operation ''failing''))) = None \<and>
   fst (getOperationResponse exProgram (Operation ''failing'')) = None"
  using exProgram_failing getOperationResponse_returns_absent [of exProgram "Operation ''failing''"]
  by simp

section \<open>Searching a property across the responses\<close>

text \<open>
  What the function computes: the first response model whose flattened properties
  hold a match, paired with the first match among the properties that model declares
  itself, if there is one.
\<close>

lemma getResultModelWithProperty_eq:
  "fst (getResultModelWithProperty prog operation predicate) =
     (case List.find (\<lambda>m. filterModelProperties m predicate \<noteq> [])
             (responseModels (fst (getHttpOperation prog operation))) of
        None \<Rightarrow> None
      | Some m0 \<Rightarrow>
          (case List.find predicate (map_values (properties m0)) of
             None \<Rightarrow> None
           | Some p0 \<Rightarrow> Some (m0, p0)))"
proof -
  let ?p = "\<lambda>m. length (filterModelProperties m predicate) > 0"
  let ?ms = "filter ?p (responseModels (fst (getHttpOperation prog operation)))"
  have p: "?p = (\<lambda>m. filterModelProperties m predicate \<noteq> [])" by (rule ext) simp
  have find: "List.find ?p xs = (case filter ?p xs of [] \<Rightarrow> None | c # _ \<Rightarrow> Some c)" for xs
    by (simp only: filter_head_find)
  have own: "(case filter predicate xs of [] \<Rightarrow> None | p0 # _ \<Rightarrow> Some (m0, p0)) =
             (case List.find predicate xs of None \<Rightarrow> None | Some p0 \<Rightarrow> Some (m0, p0))"
    for xs and m0 :: model
    by (induction xs) simp_all
  show ?thesis
  proof (cases ?ms)
    case Nil
    then show ?thesis
      unfolding p [symmetric] find
      by (simp add: getResultModelWithProperty_def getHttpMetadata_eq filterResponseModels_filter)
  next
    case (Cons m0 rest)
    then show ?thesis
      unfolding p [symmetric] find
      by (simp add: getResultModelWithProperty_def getHttpMetadata_eq filterResponseModels_filter
          own [symmetric] split: list.splits)
  qed
qed

text \<open>
  C2 says that the property returned is the first match in the flattened property
  map of the first candidate. The code does not do so at the operation \<open>list\<close>,
  whose only response is the model \<open>Page\<close>; \<open>Page\<close> declares no property and
  inherits \<open>nextLink\<close> from \<open>PageBase\<close>. The flattened \<open>Page\<close> has a property
  satisfying the predicate, \<open>Page\<close> is the first candidate, and
  \<open>getResultModelWithProperty\<close> returns \<open>undefined\<close>: the property is looked for
  among the properties \<open>Page\<close> declares itself, not in the flattened set that
  selected \<open>Page\<close>.
\<close>

theorem getResultModelWithProperty_inherited_only:
  "filterModelProperties page isNextLink = [ModelProperty ''nextLink'' (TOther ''string'')] \<and>
   filterResponseModels (fst (getHttpOperation exProgram (Operation ''list'')))
     (\<lambda>m. length (filterModelProperties m isNextLink) > 0) = Some [page] \<and>
   fst (getResultModelWithProperty exProgram (Operation ''list'') isNextLink) = None"
  by (simp add: getResultModelWithProperty_def getHttpMetadata_def filterResponseModels_def
      visitResponse_def filterModelProperties_def map_values_def isNextLink_def
      exProgram_def exHttpOperation_def page_def pageBase_def)

end
